theory Spec2Isabelle
  imports Complex_Main "HOL-Library.AList" "HOL-Library.Multiset" "HOL-Library.FSet"
begin

section \<open>Effects: errors, the shared random source, the wall clock\<close>

text \<open>
  \<^verbatim>\<open>data_generator.py\<close> draws every random value from the module-level generator of
  Python's \<^verbatim>\<open>random\<close> module and reads the wall clock with \<^verbatim>\<open>datetime.now()\<close>. Both are
  made explicit here.

  The random source is the sequence of outcomes of its successive primitive draws (a tape);
  drawing takes the head and leaves the rest. Every statement below that quantifies over the
  tape therefore holds for whatever sequence the Mersenne Twister produces. The clock is, in
  the same way, the sequence of its successive readings.

  Python's \<^verbatim>\<open>float\<close> is modelled by \<open>real\<close>: arithmetic is exact, and the rounding error of
  IEEE doubles is outside the model. A \<^verbatim>\<open>datetime\<close> is the number of microseconds since
  0001-01-01 00:00:00, a \<^verbatim>\<open>timedelta\<close> a number of microseconds.
\<close>

datatype value_error = Bad_type | Empty_range

datatype error = ValueError value_error | IndexError | OverflowError

type_synonym ('s, 'a) gen = "'s \<Rightarrow> (error + 'a) \<times> 's"

definition ret :: "'a \<Rightarrow> ('s, 'a) gen" where
  "ret x = (\<lambda>s. (Inr x, s))"

definition raise :: "error \<Rightarrow> ('s, 'a) gen" where
  "raise e = (\<lambda>s. (Inl e, s))"

definition gbind :: "('s, 'a) gen \<Rightarrow> ('a \<Rightarrow> ('s, 'b) gen) \<Rightarrow> ('s, 'b) gen" where
  "gbind m f = (\<lambda>s. case m s of (Inl e, s') \<Rightarrow> (Inl e, s') | (Inr x, s') \<Rightarrow> f x s')"

text \<open>\<^verbatim>\<open>[f(i) for i in xs]\<close>, and a \<^verbatim>\<open>for\<close> loop that appends one item per round.\<close>

primrec for_each :: "'i list \<Rightarrow> ('i \<Rightarrow> ('s, 'a) gen) \<Rightarrow> ('s, 'a list) gen" where
  "for_each [] f = ret []"
| "for_each (i # is) f = gbind (f i) (\<lambda>x. gbind (for_each is f) (\<lambda>xs. ret (x # xs)))"

text \<open>A \<^verbatim>\<open>for\<close> loop that updates local variables \<open>a\<close> in every round.\<close>

primrec fold_gen :: "('i \<Rightarrow> 'a \<Rightarrow> ('s, 'a) gen) \<Rightarrow> 'i list \<Rightarrow> 'a \<Rightarrow> ('s, 'a) gen" where
  "fold_gen f [] a = ret a"
| "fold_gen f (i # is) a = gbind (f i a) (fold_gen f is)"

text \<open>\<^verbatim>\<open>range(n)\<close> and \<^verbatim>\<open>range(a, b)\<close>: empty when the bound is not above the start.\<close>

definition py_range :: "int \<Rightarrow> int list" where
  "py_range n = map int [0..<nat n]"

definition py_range2 :: "int \<Rightarrow> int \<Rightarrow> int list" where
  "py_range2 a b = map (\<lambda>k. a + int k) [0..<nat (b - a)]"

subsection \<open>The random module\<close>

type_synonym rng = "nat \<Rightarrow> nat"

definition draw :: "(rng, nat) gen" where
  "draw = (\<lambda>t. (Inr (t 0), (\<lambda>i. t (Suc i))))"

text \<open>\<^verbatim>\<open>_randbelow(n)\<close>: an integer in \<open>[0, n)\<close>.\<close>

definition randbelow :: "nat \<Rightarrow> (rng, nat) gen" where
  "randbelow n = gbind draw (\<lambda>r. ret (r mod n))"

text \<open>\<^verbatim>\<open>random()\<close>: a multiple of \<open>2\<^sup>-\<^sup>5\<^sup>3\<close> in \<open>[0, 1)\<close>.\<close>

definition random :: "(rng, real) gen" where
  "random = gbind draw (\<lambda>r. ret (real (r mod 2 ^ 53) / 2 ^ 53))"

text \<open>\<^verbatim>\<open>randint(a, b)\<close> is \<^verbatim>\<open>randrange(a, b + 1)\<close>, which raises ValueError on an empty range.\<close>

definition randint :: "int \<Rightarrow> int \<Rightarrow> (rng, int) gen" where
  "randint a b =
     (if 0 < b + 1 - a then gbind (randbelow (nat (b + 1 - a))) (\<lambda>k. ret (a + int k))
      else raise (ValueError Empty_range))"

text \<open>\<^verbatim>\<open>uniform(a, b)\<close> is \<^verbatim>\<open>a + (b - a) * random()\<close>.\<close>

definition uniform :: "real \<Rightarrow> real \<Rightarrow> (rng, real) gen" where
  "uniform a b = gbind random (\<lambda>r. ret (a + (b - a) * r))"

definition index :: "'a list \<Rightarrow> nat \<Rightarrow> ('s, 'a) gen" where
  "index xs i = (if i < length xs then ret (xs ! i) else raise IndexError)"

text \<open>\<^verbatim>\<open>choice(seq)\<close> is \<^verbatim>\<open>seq[_randbelow(len(seq))]\<close>, IndexError on an empty sequence.\<close>

definition choice :: "'a list \<Rightarrow> (rng, 'a) gen" where
  "choice xs =
     (if xs = [] then raise IndexError
      else gbind (randbelow (length xs)) (\<lambda>i. index xs i))"

text \<open>
  \<^verbatim>\<open>choices(population, k=k)\<close> without weights is
  \<^verbatim>\<open>[population[floor(random() * n)] for i in repeat(None, k)]\<close>.
\<close>

definition choices :: "'a list \<Rightarrow> int \<Rightarrow> (rng, 'a list) gen" where
  "choices population k =
     for_each (py_range k)
       (\<lambda>_. gbind random (\<lambda>r. index population (nat \<lfloor>r * real (length population)\<rfloor>)))"

text \<open>
  \<^verbatim>\<open>shuffle(x)\<close>: for \<open>i\<close> from \<open>len(x) - 1\<close> down to 1, swap \<open>x[i]\<close> with
  \<open>x[_randbelow(i + 1)]\<close>.
\<close>

primrec shuffle_loop :: "nat list \<Rightarrow> 'a list \<Rightarrow> (rng, 'a list) gen" where
  "shuffle_loop [] x = ret x"
| "shuffle_loop (i # is) x =
     gbind (randbelow (i + 1)) (\<lambda>j. shuffle_loop is (x[i := x ! j, j := x ! i]))"

definition shuffle :: "'a list \<Rightarrow> (rng, 'a list) gen" where
  "shuffle x = shuffle_loop (rev [1..<length x]) x"

subsection \<open>The world: random source and clock\<close>

record world =
  tape :: rng
  clock :: "nat \<Rightarrow> int"

text \<open>A draw from the shared source inside a computation that also reads the clock.\<close>

definition rnd :: "(rng, 'a) gen \<Rightarrow> (world, 'a) gen" where
  "rnd m = (\<lambda>w. case m (tape w) of (r, t') \<Rightarrow> (r, w\<lparr>tape := t'\<rparr>))"

text \<open>
  \<^verbatim>\<open>random.seed(k)\<close> replaces the state of the source by the one the seed determines;
  \<open>prng\<close> is the generator's output sequence as a function of the seed.
\<close>

definition seed :: "(int \<Rightarrow> rng) \<Rightarrow> int \<Rightarrow> world \<Rightarrow> world" where
  "seed prng k w = w\<lparr>tape := prng k\<rparr>"

type_synonym datetime = int

definition usec_per_day :: int where
  "usec_per_day = 86400000000"

text \<open>\<^verbatim>\<open>datetime.max\<close> is 9999-12-31 23:59:59.999999, day number 3652059 of the calendar.\<close>

definition datetime_max :: datetime where
  "datetime_max = 3652059 * usec_per_day - 1"

definition now :: "(world, datetime) gen" where
  "now = (\<lambda>w. (Inr (clock w 0), w\<lparr>clock := (\<lambda>i. clock w (Suc i))\<rparr>))"

text \<open>
  \<^verbatim>\<open>timedelta(days=d, hours=h, minutes=m)\<close>; OverflowError when the normalised number of
  days has magnitude above 999999999.
\<close>

definition timedelta :: "int \<Rightarrow> int \<Rightarrow> int \<Rightarrow> ('s, int) gen" where
  "timedelta days hours minutes =
     (let us = days * usec_per_day + hours * 3600000000 + minutes * 60000000;
          d = us div usec_per_day
      in if - 999999999 \<le> d \<and> d \<le> 999999999 then ret us else raise OverflowError)"

text \<open>\<^verbatim>\<open>datetime + timedelta\<close>; OverflowError outside the years 1 to 9999.\<close>

definition dt_add :: "datetime \<Rightarrow> int \<Rightarrow> ('s, datetime) gen" where
  "dt_add t d = (if 0 \<le> t + d \<and> t + d \<le> datetime_max then ret (t + d) else raise OverflowError)"

definition dt_sub :: "datetime \<Rightarrow> int \<Rightarrow> ('s, datetime) gen" where
  "dt_sub t d = dt_add t (- d)"

subsection \<open>Built-ins: round, str, format\<close>

text \<open>\<^verbatim>\<open>round(x, ndigits)\<close> rounds to the nearest multiple of \<open>10\<^sup>-\<^sup>n\<close>, ties to even.\<close>

definition round_half_even :: "real \<Rightarrow> int" where
  "round_half_even x =
     (let f = \<lfloor>x\<rfloor>; d = x - of_int f
      in if d < 1 / 2 then f else if 1 / 2 < d then f + 1 else if even f then f else f + 1)"

definition py_round :: "real \<Rightarrow> nat \<Rightarrow> real" where
  "py_round x ndigits = of_int (round_half_even (x * 10 ^ ndigits)) / 10 ^ ndigits"





section \<open>Basic data generators\<close>

text \<open>
  Values of mixed Python types; \<^verbatim>\<open>generate_numbers\<close> returns a list of \<open>PInt\<close> or of
  \<open>PFloat\<close>, \<^verbatim>\<open>generate_mixed_types\<close> uses every constructor.
\<close>

datatype pyval =
    PInt int
  | PStr string
  | PFloat real
  | PNone
  | PBool bool
  | PList "pyval list"
  | PDict "(pyval \<times> pyval) list"
  | PSet "pyval fset"
  | PTuple "pyval list"





section \<open>Structured data generators\<close>

record student =
  s_name :: string
  s_age :: int
  s_grade :: real
  s_major :: string
  s_credits :: int


record product =
  p_id :: int
  p_name :: string
  p_price :: real
  p_quantity :: int
  p_category :: string
  p_rating :: real


record transaction =
  t_id :: int
  t_date :: datetime
  t_amount :: real
  t_category :: string
  t_merchant :: string
  t_status :: string

definition generate_transactions :: "int \<Rightarrow> (world, transaction list) gen" where
  "generate_transactions n =
     (let categories = [''Food'', ''Transport'', ''Entertainment'', ''Shopping'', ''Bills'', ''Healthcare''];
          merchants = [''Amazon'', ''Walmart'', ''Starbucks'', ''Uber'', ''Netflix'', ''CVS'', ''Target''];
          statuses = [''completed'', ''completed'', ''completed'', ''pending'', ''failed'']
      in gbind now (\<lambda>t. gbind (timedelta 90 0 0) (\<lambda>d90. gbind (dt_sub t d90) (\<lambda>start_date.
         for_each (py_range n)
           (\<lambda>i. gbind (rnd (randint 0 90)) (\<lambda>days. gbind (rnd (randint 0 23)) (\<lambda>hours.
                  gbind (timedelta days hours 0) (\<lambda>d. gbind (dt_add start_date d) (\<lambda>date.
                  gbind (rnd (uniform 5 500)) (\<lambda>a.
                  gbind (rnd (choice categories)) (\<lambda>category.
                  gbind (rnd (choice merchants)) (\<lambda>merchant.
                  gbind (rnd (choice statuses)) (\<lambda>status.
                  ret \<lparr>t_id = i + 5000, t_date = date, t_amount = py_round a 2,
                       t_category = category, t_merchant = merchant,
                       t_status = status\<rparr>)))))))))))))"

record log_entry =
  l_timestamp :: datetime
  l_level :: string
  l_message :: string
  l_module :: string
  l_user_id :: int



section \<open>Special data generators\<close>



record point =
  ts_date :: datetime
  ts_value :: real
  ts_volume :: int

definition generate_time_series :: "int \<Rightarrow> real \<Rightarrow> (world, point list) gen" where
  "generate_time_series days initial =
     gbind now (\<lambda>t. gbind (timedelta days 0 0) (\<lambda>d. gbind (dt_sub t d) (\<lambda>start_date.
     gbind (fold_gen
              (\<lambda>i (data, val).
                 gbind (timedelta i 0 0) (\<lambda>di. gbind (dt_add start_date di) (\<lambda>date.
                 gbind (rnd (uniform (- 10) 12)) (\<lambda>change.
                 let val = max 0 (val + change)
                 in gbind (rnd (randint 1000 10000)) (\<lambda>volume.
                    ret (data @ [\<lparr>ts_date = date, ts_value = py_round val 2,
                                  ts_volume = volume\<rparr>], val))))))
              (py_range days) ([], initial))
       (\<lambda>(data, val). ret data))))"

text \<open>
  The purchase dictionaries of \<^verbatim>\<open>generate_user_data\<close> are objects: every evaluation of the
  dictionary literal allocates a new one. The result is the list of users together with the
  store of the purchase objects; a user's \<open>u_purchases\<close> lists the addresses of its purchases
  in that store.
\<close>

record purchase =
  pu_item :: string
  pu_price :: real
  pu_date :: datetime

record user =
  u_id :: int
  u_username :: string
  u_email :: string
  u_age :: int
  u_city :: string
  u_active :: bool
  u_premium :: bool
  u_purchases :: "nat list"



section \<open>Data with specific patterns\<close>


definition generate_pattern_numbers :: "(rng, int list) gen" where
  "generate_pattern_numbers =
     (let numbers = [];
          numbers = numbers @ map (\<lambda>i. i ^ 2) (py_range2 1 11);
          primes = [2, 3, 5, 7, 11, 13, 17, 19, 23, 29, 31, 37, 41, 43, 47];
          numbers = numbers @ primes;
          fibs = [1, 1, 2, 3, 5, 8, 13, 21, 34, 55, 89];
          numbers = numbers @ fibs
      in gbind (for_each (py_range 50) (\<lambda>_. randint 1 100)) (\<lambda>randoms.
         shuffle (numbers @ randoms)))"

section \<open>All datasets\<close>

record datasets =
  numbers :: "pyval list"
  floats :: "pyval list"
  strings :: "string list"
  words :: "string list"
  sentences :: "string list"
  students :: "student list"
  products :: "product list"
  transactions :: "transaction list"
  logs :: "log_entry list"
  matrix :: "int list list"
  grades :: "(string \<times> (string \<times> int) list) list"
  time_series :: "point list"
  users :: "user list \<times> purchase list"
  mixed_types :: "pyval list"
  emails_text :: "string list"
  pattern_numbers :: "int list"


section \<open>Specification predicates\<close>


text \<open>
  The clock readings from which every window of the generators can be computed: each is a
  date at least 90 days after \<^verbatim>\<open>datetime.min\<close> and at least a day before \<^verbatim>\<open>datetime.max\<close>.
\<close>

definition clock_ok :: "(nat \<Rightarrow> int) \<Rightarrow> bool" where
  "clock_ok c = (\<forall>i. 90 * usec_per_day \<le> c i \<and> c i + usec_per_day \<le> datetime_max)"

text \<open>The two fixed lists of \<^verbatim>\<open>generate_pattern_numbers\<close> that claim C6 names.\<close>

definition squares :: "int list" where
  "squares = [1, 4, 9, 16, 25, 36, 49, 64, 81, 100]"

definition primes :: "int list" where
  "primes = [2, 3, 5, 7, 11, 13, 17, 19, 23, 29, 31, 37, 41, 43, 47]"


subsection \<open>Proof rules\<close>

text \<open>
  \<open>sure I m Q\<close>: from every state that satisfies \<open>I\<close> the computation \<open>m\<close> returns (it does not
  raise), its value satisfies \<open>Q\<close> and the state it leaves satisfies \<open>I\<close> again. The
  invariants used are closed under taking the rest of a tape (\<open>shift_closed\<close>) and, for the
  clock, keep the readings in range (\<open>clock_inv\<close>); \<open>winv\<close> joins one for the random source
  and one for the clock.
\<close>

definition sure :: "('s \<Rightarrow> bool) \<Rightarrow> ('s, 'a) gen \<Rightarrow> ('a \<Rightarrow> bool) \<Rightarrow> bool" where
  "sure I m Q = (\<forall>s. I s \<longrightarrow> (\<exists>x s'. m s = (Inr x, s') \<and> Q x \<and> I s'))"

definition shift_closed :: "((nat \<Rightarrow> 'a) \<Rightarrow> bool) \<Rightarrow> bool" where
  "shift_closed J = (\<forall>t. J t \<longrightarrow> J (\<lambda>i. t (Suc i)))"

definition clock_inv :: "((nat \<Rightarrow> int) \<Rightarrow> bool) \<Rightarrow> bool" where
  "clock_inv C = (shift_closed C \<and> (\<forall>c. C c \<longrightarrow> 90 * usec_per_day \<le> c 0 \<and> c 0 + usec_per_day \<le> datetime_max))"

definition winv :: "(rng \<Rightarrow> bool) \<Rightarrow> ((nat \<Rightarrow> int) \<Rightarrow> bool) \<Rightarrow> world \<Rightarrow> bool" where
  "winv J C w = (J (tape w) \<and> C (clock w))"

text \<open>
  \<open>agree R m1 m2\<close>: started in two worlds with the same random source (and any clocks in
  range), \<open>m1\<close> and \<open>m2\<close> both return, with values related by \<open>R\<close>, and leave the random
  source in the same state.
\<close>

definition agree :: "('a \<Rightarrow> 'b \<Rightarrow> bool) \<Rightarrow> (world, 'a) gen \<Rightarrow> (world, 'b) gen \<Rightarrow> bool" where
  "agree R m1 m2 =
     (\<forall>w1 w2. tape w1 = tape w2 \<and> clock_ok (clock w1) \<and> clock_ok (clock w2) \<longrightarrow>
        (\<exists>x y w1' w2'. m1 w1 = (Inr x, w1') \<and> m2 w2 = (Inr y, w2') \<and> R x y
           \<and> tape w1' = tape w2' \<and> clock_ok (clock w1') \<and> clock_ok (clock w2')))"




subsection \<open>Concrete worlds\<close>

text \<open>
  The clock of \<open>example_world\<close> stands 739925 days after 0001-01-01 00:00:00, at
  2026-11-06 00:00:00; its random source yields 0, 1, 2, ... In \<open>late_world\<close> the first draw
  is 90 and all later ones are 23. In \<open>drift_world\<close> the clock shows that instant at the
  first reading and one 200 days later from then on. \<open>zero_prng\<close> is a generator whose output
  is 0 for every seed.
\<close>

definition example_world :: world where
  "example_world = \<lparr>tape = (\<lambda>i. i), clock = (\<lambda>_. 739925 * usec_per_day)\<rparr>"

definition late_world :: world where
  "late_world = \<lparr>tape = (\<lambda>i. if i = 0 then 90 else 23), clock = (\<lambda>_. 739925 * usec_per_day)\<rparr>"



section \<open>Rules for the effects\<close>

lemma sureI: "(\<And>s. I s \<Longrightarrow> \<exists>x s'. m s = (Inr x, s') \<and> Q x \<and> I s') \<Longrightarrow> sure I m Q"
  by (simp add: sure_def)

lemma sureD: "sure I m Q \<Longrightarrow> I s \<Longrightarrow> \<exists>x s'. m s = (Inr x, s') \<and> Q x \<and> I s'"
  by (simp add: sure_def)

lemma sure_ret: "Q x \<Longrightarrow> sure I (ret x) Q"
  by (simp add: sure_def ret_def)

lemma sure_bind:
  assumes "sure I m P" and "\<And>x. P x \<Longrightarrow> sure I (f x) Q"
  shows "sure I (gbind m f) Q"
proof (rule sureI)
  fix s assume "I s"
  with assms(1) obtain x s' where m: "m s = (Inr x, s')" "P x" "I s'"
    by (auto dest: sureD)
  from assms(2)[OF m(2)] m(3) obtain y s'' where "f x s' = (Inr y, s'')" "Q y" "I s''"
    by (auto dest: sureD)
  with m show "\<exists>x s'. gbind m f s = (Inr x, s') \<and> Q x \<and> I s'"
    by (simp add: gbind_def)
qed

lemma sure_weaken: "sure I m P \<Longrightarrow> (\<And>x. P x \<Longrightarrow> Q x) \<Longrightarrow> sure I m Q"
  by (fastforce simp: sure_def)

lemma sure_for_each:
  assumes "\<And>i. i \<in> set xs \<Longrightarrow> sure I (f i) (P i)"
  shows "sure I (for_each xs f) (\<lambda>ys. list_all2 P xs ys)"
  using assms
proof (induction xs)
  case Nil
  show ?case by (simp add: sure_ret)
next
  case (Cons i xs)
  have tl: "sure I (for_each xs f) (\<lambda>ys. list_all2 P xs ys)"
    by (rule Cons.IH) (simp add: Cons.prems)
  have hd: "sure I (f i) (P i)"
    by (rule Cons.prems) simp
  show ?case
    unfolding for_each.simps
    by (rule sure_bind[OF hd], rule sure_bind[OF tl], rule sure_ret) simp
qed

lemma sure_for_each_all:
  assumes "\<And>i. i \<in> set xs \<Longrightarrow> sure I (f i) P"
  shows "sure I (for_each xs f) (\<lambda>ys. length ys = length xs \<and> (\<forall>y\<in>set ys. P y))"
proof (rule sure_weaken[OF sure_for_each[where P = "\<lambda>_. P"]])
  fix i assume "i \<in> set xs" then show "sure I (f i) P" by (rule assms)
next
  fix ys assume "list_all2 (\<lambda>_. P) xs ys"
  then show "length ys = length xs \<and> (\<forall>y\<in>set ys. P y)"
    by (auto simp: list_all2_conv_all_nth in_set_conv_nth)
qed


lemma sure_draw: "shift_closed J \<Longrightarrow> sure J draw (\<lambda>_. True)"
  by (simp add: sure_def draw_def shift_closed_def)

lemma sure_randbelow: "shift_closed J \<Longrightarrow> 0 < n \<Longrightarrow> sure J (randbelow n) (\<lambda>k. k < n)"
  unfolding randbelow_def
  by (rule sure_bind[OF sure_draw]) (simp_all add: sure_ret)

lemma sure_random: "shift_closed J \<Longrightarrow> sure J random (\<lambda>r. 0 \<le> r \<and> r < 1)"
  unfolding random_def
  by (rule sure_bind[OF sure_draw]) (simp_all add: sure_ret)

lemma sure_randint:
  "shift_closed J \<Longrightarrow> a \<le> b \<Longrightarrow> sure J (randint a b) (\<lambda>v. a \<le> v \<and> v \<le> b)"
  unfolding randint_def
  by (simp, rule sure_bind[OF sure_randbelow]) (auto intro: sure_ret)

lemma sure_uniform:
  assumes "shift_closed J" "a \<le> b"
  shows "sure J (uniform a b) (\<lambda>v. a \<le> v \<and> v \<le> b)"
  unfolding uniform_def
proof (rule sure_bind[OF sure_random[OF assms(1)]], rule sure_ret)
  fix r :: real assume r: "0 \<le> r \<and> r < 1"
  have "0 \<le> (b - a) * r" using r assms(2) by simp
  moreover have "(b - a) * r \<le> (b - a) * 1"
    using r assms(2) by (intro mult_left_mono) simp_all
  ultimately show "a \<le> a + (b - a) * r \<and> a + (b - a) * r \<le> b" by simp
qed

lemma sure_index: "i < length xs \<Longrightarrow> sure I (index xs i) (\<lambda>x. x \<in> set xs)"
  by (simp add: index_def sure_ret)

lemma sure_choice: "shift_closed J \<Longrightarrow> xs \<noteq> [] \<Longrightarrow> sure J (choice xs) (\<lambda>x. x \<in> set xs)"
  unfolding choice_def
  by (simp, rule sure_bind[OF sure_randbelow]) (auto intro: sure_index)

lemma length_py_range [simp]: "length (py_range n) = nat n"
  by (simp add: py_range_def)

lemma length_py_range2 [simp]: "length (py_range2 a b) = nat (b - a)"
  by (simp add: py_range2_def)

lemma floor_scale_less:
  assumes "0 \<le> r" "r < 1" "0 < n"
  shows "nat \<lfloor>r * real n\<rfloor> < n"
proof -
  have "r * real n < real n" using assms by simp
  then have "\<lfloor>r * real n\<rfloor> < int n" by linarith
  moreover have "0 \<le> \<lfloor>r * real n\<rfloor>" using assms by simp
  ultimately show ?thesis by linarith
qed

lemma sure_choices:
  assumes "shift_closed J" "population \<noteq> []"
  shows "sure J (choices population k) (\<lambda>ys. length ys = nat k \<and> set ys \<subseteq> set population)"
proof -
  have body: "sure J (gbind random (\<lambda>r. index population (nat \<lfloor>r * real (length population)\<rfloor>)))
                (\<lambda>x. x \<in> set population)"
    by (rule sure_bind[OF sure_random[OF assms(1)]], rule sure_index)
       (use assms(2) in \<open>simp add: floor_scale_less\<close>)
  show ?thesis
    unfolding choices_def
    by (rule sure_weaken[OF sure_for_each_all[where P = "\<lambda>x. x \<in> set population"]])
       (auto intro: body)
qed

lemma sure_shuffle_loop:
  assumes "shift_closed J"
  shows "\<forall>i\<in>set is. i < length x \<Longrightarrow> sure J (shuffle_loop is x) (\<lambda>y. mset y = mset x)"
proof (induction "is" arbitrary: x)
  case Nil
  show ?case by (simp add: sure_ret)
next
  case (Cons i "is")
  show ?case
    unfolding shuffle_loop.simps
  proof (rule sure_bind[OF sure_randbelow[OF assms]])
    show "0 < i + 1" by simp
  next
    fix j assume j: "j < i + 1"
    have i: "i < length x" using Cons.prems by simp
    with j have jl: "j < length x" by simp
    have m: "mset (x[i := x ! j, j := x ! i]) = mset x"
      using mset_swap[OF jl i] .
    have "sure J (shuffle_loop is (x[i := x ! j, j := x ! i]))
            (\<lambda>y. mset y = mset (x[i := x ! j, j := x ! i]))"
      by (rule Cons.IH) (use Cons.prems in simp)
    then show "sure J (shuffle_loop is (x[i := x ! j, j := x ! i])) (\<lambda>y. mset y = mset x)"
      by (simp add: m)
  qed
qed

lemma sure_shuffle: "shift_closed J \<Longrightarrow> sure J (shuffle x) (\<lambda>y. mset y = mset x)"
  unfolding shuffle_def by (rule sure_shuffle_loop) auto

lemma sure_rnd: "sure J m Q \<Longrightarrow> sure (winv J C) (rnd m) Q"
  by (fastforce simp: sure_def rnd_def winv_def)

lemma sure_now:
  "clock_inv C \<Longrightarrow> sure (winv J C) now (\<lambda>t. 90 * usec_per_day \<le> t \<and> t + usec_per_day \<le> datetime_max)"
  by (simp add: sure_def now_def winv_def clock_inv_def shift_closed_def)

lemma sure_timedelta:
  assumes "\<bar>days\<bar> \<le> 3652059" "0 \<le> hours" "hours \<le> 24" "0 \<le> minutes" "minutes \<le> 1440"
  shows "sure I (timedelta days hours minutes)
           (\<lambda>d. d = days * usec_per_day + hours * 3600000000 + minutes * 60000000)"
proof -
  let ?us = "days * usec_per_day + hours * 3600000000 + minutes * 60000000"
  have lo: "- 3652059 * usec_per_day \<le> ?us" using assms by (simp add: usec_per_day_def)
  have hi: "?us \<le> 3652061 * usec_per_day" using assms by (simp add: usec_per_day_def)
  have "- 3652059 \<le> ?us div usec_per_day"
    using zdiv_mono1[OF lo, of usec_per_day] by (simp add: usec_per_day_def)
  moreover have "?us div usec_per_day \<le> 3652061"
    using zdiv_mono1[OF hi, of usec_per_day] by (simp add: usec_per_day_def)
  ultimately show ?thesis
    by (simp add: timedelta_def Let_def sure_ret)
qed

lemma sure_dt_add:
  "0 \<le> t + d \<Longrightarrow> t + d \<le> datetime_max \<Longrightarrow> sure I (dt_add t d) (\<lambda>x. x = t + d)"
  by (simp add: dt_add_def sure_ret)

lemma sure_dt_sub:
  "0 \<le> t - d \<Longrightarrow> t - d \<le> datetime_max \<Longrightarrow> sure I (dt_sub t d) (\<lambda>x. x = t - d)"
  by (simp add: dt_sub_def dt_add_def sure_ret)

lemma round_half_even_cases: "round_half_even x = \<lfloor>x\<rfloor> \<or> round_half_even x = \<lfloor>x\<rfloor> + 1 \<and> of_int \<lfloor>x\<rfloor> < x"
  by (auto simp: round_half_even_def Let_def)

lemma round_half_even_ge: "of_int m \<le> x \<Longrightarrow> m \<le> round_half_even x"
proof -
  assume "of_int m \<le> x"
  then have "m \<le> \<lfloor>x\<rfloor>" by (simp add: le_floor_iff)
  then show ?thesis using round_half_even_cases[of x] by auto
qed



lemma py_round_ge:
  assumes "of_int m / 10 ^ d \<le> x"
  shows "of_int m / 10 ^ d \<le> py_round x d"
proof -
  have "of_int m \<le> x * 10 ^ d" using assms by (simp add: pos_divide_le_eq)
  then have "m \<le> round_half_even (x * 10 ^ d)" by (rule round_half_even_ge)
  then have "(of_int m :: real) \<le> of_int (round_half_even (x * 10 ^ d))" by simp
  then show ?thesis by (simp add: py_round_def divide_right_mono)
qed


lemma py_round_nonneg: "0 \<le> x \<Longrightarrow> 0 \<le> py_round x d"
  using py_round_ge[of 0 d x] by simp

section \<open>The generators return\<close>

lemma sure_fold_gen_idx:
  assumes "\<And>k a. k < length xs \<Longrightarrow> R k a \<Longrightarrow> sure I (f (xs ! k) a) (R (Suc k))" and "R 0 a"
  shows "sure I (fold_gen f xs a) (R (length xs))"
  using assms
proof (induction xs arbitrary: R a)
  case Nil
  then show ?case by (simp add: sure_ret)
next
  case (Cons i xs)
  show ?case
    unfolding fold_gen.simps
  proof (rule sure_bind)
    show "sure I (f i a) (R (Suc 0))"
      using Cons.prems(1)[of 0 a] Cons.prems(2) by simp
  next
    fix b assume b: "R (Suc 0) b"
    have "sure I (fold_gen f xs b) ((\<lambda>k. R (Suc k)) (length xs))"
    proof (rule Cons.IH)
      fix k a assume "k < length xs" "R (Suc k) a"
      then show "sure I (f (xs ! k) a) (R (Suc (Suc k)))"
        using Cons.prems(1)[of "Suc k" a] by simp
    qed (rule b)
    then show "sure I (fold_gen f xs b) (R (length (i # xs)))" by simp
  qed
qed

lemmas sure_steps =
  sure_bind[OF sure_randint] sure_bind[OF sure_uniform] sure_bind[OF sure_choice]
  sure_bind[OF sure_random] sure_bind[OF sure_choices]
  sure_bind[OF sure_rnd[OF sure_randint]] sure_bind[OF sure_rnd[OF sure_uniform]]
  sure_bind[OF sure_rnd[OF sure_choice]] sure_bind[OF sure_rnd[OF sure_random]]
  sure_bind[OF sure_now] sure_bind[OF sure_timedelta] sure_bind[OF sure_dt_add]
  sure_bind[OF sure_dt_sub]

















lemma py_range2_squares: "map (\<lambda>i. i ^ 2) (py_range2 1 11) = squares"
  by (simp add: py_range2_def squares_def upt_rec)

lemma sure_generate_pattern_numbers:
  assumes "shift_closed J"
  shows "sure J generate_pattern_numbers
           (\<lambda>xs. length xs = 86 \<and> mset squares \<subseteq># mset xs \<and> mset primes \<subseteq># mset xs)"
  unfolding generate_pattern_numbers_def Let_def py_range2_squares
proof (rule sure_bind[OF sure_for_each_all[where P = "\<lambda>x. True"]])
  fix i :: int
  show "sure J (randint 1 100) (\<lambda>x. True)"
    by (rule sure_weaken[OF sure_randint]) (simp_all add: assms)
next
  fix randoms :: "int list"
  assume r: "length randoms = length (py_range 50) \<and> (\<forall>y\<in>set randoms. True)"
  let ?fibs = "[1, 1, 2, 3, 5, 8, 13, 21, 34, 55, 89] :: int list"
  let ?all = "((([] @ squares) @ [2, 3, 5, 7, 11, 13, 17, 19, 23, 29, 31, 37, 41, 43, 47]) @ ?fibs) @ randoms"
  have len: "length ?all = 86" using r by (simp add: squares_def)
  have ms: "mset ?all = mset squares + mset primes + mset ?fibs + mset randoms"
    by (simp add: primes_def)
  show "sure J (shuffle ?all)
          (\<lambda>xs. length xs = 86 \<and> mset squares \<subseteq># mset xs \<and> mset primes \<subseteq># mset xs)"
  proof (rule sure_weaken[OF sure_shuffle[OF assms]])
    fix xs :: "int list" assume eq: "mset xs = mset ?all"
    then have "length xs = length ?all" by (rule mset_eq_length)
    moreover have "mset squares \<subseteq># mset xs" unfolding eq ms by simp
    moreover have "mset primes \<subseteq># mset xs" unfolding eq ms by simp
    ultimately show "length xs = 86 \<and> mset squares \<subseteq># mset xs \<and> mset primes \<subseteq># mset xs"
      using len by simp
  qed
qed

lemma nth_py_range [simp]: "k < nat n \<Longrightarrow> py_range n ! k = int k"
  by (simp add: py_range_def)

lemma sure_time_series_loop:
  assumes J: "shift_closed J" and s0: "0 \<le> start" and d: "days \<le> 3652059"
    and s1: "\<And>i. 0 \<le> i \<Longrightarrow> i < days \<Longrightarrow> start + i * usec_per_day \<le> datetime_max"
  shows "sure (winv J C)
           (fold_gen
              (\<lambda>i (data, val).
                 gbind (timedelta i 0 0) (\<lambda>di. gbind (dt_add start di) (\<lambda>date.
                 gbind (rnd (uniform (- 10) 12)) (\<lambda>change.
                 let val = max 0 (val + change)
                 in gbind (rnd (randint 1000 10000)) (\<lambda>volume.
                    ret (data @ [\<lparr>ts_date = date, ts_value = py_round val 2,
                                  ts_volume = volume\<rparr>], val))))))
              (py_range days) ([], initial))
           (\<lambda>(data, val). length data = nat days \<and>
              (\<forall>j<nat days. ts_date (data ! j) = start + int j * usec_per_day
                  \<and> 0 \<le> ts_value (data ! j)))"
  apply (rule sure_weaken[OF sure_fold_gen_idx[where R = "\<lambda>k (data, val). length data = k \<and>
              (\<forall>j<k. ts_date (data ! j) = start + int j * usec_per_day \<and> 0 \<le> ts_value (data ! j))"]])
  subgoal for k a
    apply (cases a)
    apply (simp only: prod.case Let_def)
    apply (intro sure_steps sure_ret)
    using s0 d s1[of "int k"]
             apply (simp_all add: J nth_append less_Suc_eq py_round_nonneg usec_per_day_def)
    done
   apply simp
  apply (simp split: prod.splits)
  done

lemma sureD': "sure I m Q \<Longrightarrow> I s \<Longrightarrow> \<exists>x s'. m s = (Inr x, s') \<and> Q x"
  by (fastforce simp: sure_def)

lemma shift_closed_True [simp]: "shift_closed (\<lambda>_. True)"
  by (simp add: shift_closed_def)

lemma shift_closed_clock_ok [simp]: "shift_closed clock_ok"
  by (simp add: shift_closed_def clock_ok_def)

lemma clock_inv_clock_ok [simp]: "clock_inv clock_ok"
  by (simp add: clock_inv_def) (simp add: clock_ok_def)

lemma winv_True [simp]: "winv (\<lambda>_. True) (\<lambda>_. True) w"
  by (simp add: winv_def)



lemma sure_time_series_from:
  assumes J: "shift_closed J" and t: "0 \<le> t" "t \<le> datetime_max"
    and d: "0 \<le> days" "days * usec_per_day \<le> t"
  shows "sure (winv J C)
     (gbind (timedelta days 0 0) (\<lambda>d. gbind (dt_sub t d) (\<lambda>start_date.
     gbind (fold_gen
              (\<lambda>i (data, val).
                 gbind (timedelta i 0 0) (\<lambda>di. gbind (dt_add start_date di) (\<lambda>date.
                 gbind (rnd (uniform (- 10) 12)) (\<lambda>change.
                 let val = max 0 (val + change)
                 in gbind (rnd (randint 1000 10000)) (\<lambda>volume.
                    ret (data @ [\<lparr>ts_date = date, ts_value = py_round val 2,
                                  ts_volume = volume\<rparr>], val))))))
              (py_range days) ([], initial))
       (\<lambda>(data, val). ret data))))
     (\<lambda>data. length data = nat days \<and>
        (\<forall>j<nat days. ts_date (data ! j) = t - days * usec_per_day + int j * usec_per_day
            \<and> 0 \<le> ts_value (data ! j)))"
proof -
  have days: "days \<le> 3652059"
    using d t by (simp add: usec_per_day_def datetime_max_def)
  show ?thesis
  proof (rule sure_bind[OF sure_timedelta], goal_cases)
    case (6 dd)
    show ?case
    proof (rule sure_bind[OF sure_dt_sub], goal_cases)
      case (3 start)
      have s0: "0 \<le> start" using 3 6 d by simp
      have s1: "start + i * usec_per_day \<le> datetime_max" if "0 \<le> i" "i < days" for i
      proof -
        have "i * usec_per_day \<le> days * usec_per_day"
          using that by (simp add: usec_per_day_def)
        then show ?thesis using 3 6 t by simp
      qed
      show ?case
        apply (rule sure_bind[OF sure_time_series_loop[OF J s0 days s1]])
          apply assumption+
        using 3 6 apply (auto intro!: sure_ret)
        done
    next
      case 1 show ?case using 6 d by simp
    next
      case 2 show ?case using 6 d t by (simp add: usec_per_day_def)
    qed
  qed (use days d in simp_all)
qed


lemma sure_generate_time_series:
  assumes J: "shift_closed J" and C: "clock_inv C" and d: "0 \<le> days" "days \<le> 90"
  shows "sure (winv J C) (generate_time_series days initial)
     (\<lambda>data. length data = nat days \<and>
        (\<forall>j. Suc j < nat days \<longrightarrow> ts_date (data ! Suc j) = ts_date (data ! j) + usec_per_day) \<and>
        (\<forall>j<nat days. 0 \<le> ts_value (data ! j)))"
  unfolding generate_time_series_def
proof (rule sure_bind[OF sure_now[OF C]])
  fix t assume t: "90 * usec_per_day \<le> t \<and> t + usec_per_day \<le> datetime_max"
  have 1: "0 \<le> t" "t \<le> datetime_max" using t by (simp_all add: usec_per_day_def)
  have "days * usec_per_day \<le> 90 * usec_per_day" using d by (simp add: usec_per_day_def)
  then have 2: "days * usec_per_day \<le> t" using t by simp
  show "sure (winv J C)
     (gbind (timedelta days 0 0) (\<lambda>d. gbind (dt_sub t d) (\<lambda>start_date.
     gbind (fold_gen
              (\<lambda>i (data, val).
                 gbind (timedelta i 0 0) (\<lambda>di. gbind (dt_add start_date di) (\<lambda>date.
                 gbind (rnd (uniform (- 10) 12)) (\<lambda>change.
                 let val = max 0 (val + change)
                 in gbind (rnd (randint 1000 10000)) (\<lambda>volume.
                    ret (data @ [\<lparr>ts_date = date, ts_value = py_round val 2,
                                  ts_volume = volume\<rparr>], val))))))
              (py_range days) ([], initial))
       (\<lambda>(data, val). ret data))))
     (\<lambda>data. length data = nat days \<and>
        (\<forall>j. Suc j < nat days \<longrightarrow> ts_date (data ! Suc j) = ts_date (data ! j) + usec_per_day) \<and>
        (\<forall>j<nat days. 0 \<le> ts_value (data ! j)))"
  proof (rule sure_weaken[OF sure_time_series_from[OF J 1 d(1) 2]], intro conjI allI impI)
    fix data :: "point list" and j
    assume a: "length data = nat days \<and>
        (\<forall>j<nat days. ts_date (data ! j) = t - days * usec_per_day + int j * usec_per_day
            \<and> 0 \<le> ts_value (data ! j))"
    { assume j: "Suc j < nat days"
      then have "ts_date (data ! Suc j) = t - days * usec_per_day + int (Suc j) * usec_per_day"
        and "ts_date (data ! j) = t - days * usec_per_day + int j * usec_per_day"
        using a by simp_all
      then show "ts_date (data ! Suc j) = ts_date (data ! j) + usec_per_day"
        by (simp add: algebra_simps) }
    { assume "j < nat days" then show "0 \<le> ts_value (data ! j)" using a by simp }
  qed simp
qed







lemmas eval_defs = py_range_def py_range2_def upt_rec randint_def randbelow_def draw_def gbind_def
  ret_def raise_def choice_def choices_def index_def uniform_def random_def py_round_def
  round_half_even_def Let_def rnd_def now_def timedelta_def dt_add_def dt_sub_def
  usec_per_day_def datetime_max_def

lemma clock_ok_example [simp]: "clock_ok (clock example_world)"
  by (simp add: clock_ok_def example_world_def usec_per_day_def datetime_max_def)

lemma winv_clock_ok: "clock_ok (clock w) \<Longrightarrow> winv (\<lambda>_. True) clock_ok w"
  by (simp add: winv_def)

lemma sure_total: "sure (\<lambda>_. True) m Q \<Longrightarrow> \<exists>x s'. m s = (Inr x, s') \<and> Q x"
  by (rule sureD'[where I = "\<lambda>_. True"]) simp_all

lemma sure_total_world:
  "sure (winv (\<lambda>_. True) clock_ok) m Q \<Longrightarrow> clock_ok (clock w) \<Longrightarrow> \<exists>x w'. m w = (Inr x, w') \<and> Q x"
  by (rule sureD'[where I = "winv (\<lambda>_. True) clock_ok"]) (simp_all add: winv_def)













lemma clock_seed [simp]: "clock (seed prng k w) = clock w"
  by (simp add: seed_def)




lemma agree_weaken: "agree P m1 m2 \<Longrightarrow> (\<And>x y. P x y \<Longrightarrow> R x y) \<Longrightarrow> agree R m1 m2"
  by (fastforce simp: agree_def)
























section \<open>Claims\<close>






text \<open>
  Claim C6. \<^verbatim>\<open>generate_pattern_numbers()\<close> always returns a list of length 86 that contains
  the first ten perfect squares and the fifteen primes up to 47 as sub-multisets.
\<close>

theorem pattern_numbers_length_and_members:
  "\<exists>xs t'. generate_pattern_numbers t = (Inr xs, t') \<and> length xs = 86
     \<and> mset squares \<subseteq># mset xs \<and> mset primes \<subseteq># mset xs"
  using sure_total[OF sure_generate_pattern_numbers[OF shift_closed_True], of t] by blast



text \<open>
  Claim C7. \<^verbatim>\<open>generate_time_series(days=10, initial=100)\<close> returns exactly 10 points; each date
  is one day after the one before, so the dates are strictly increasing; every value is at
  least 0.
\<close>

theorem time_series_ten_points:
  assumes "clock_ok (clock w)"
  shows "\<exists>pts w'. generate_time_series 10 100 w = (Inr pts, w') \<and> length pts = 10
     \<and> (\<forall>j. Suc j < 10 \<longrightarrow> ts_date (pts ! Suc j) = ts_date (pts ! j) + usec_per_day)
     \<and> sorted_wrt (<) (map ts_date pts)
     \<and> (\<forall>j<10. 0 \<le> ts_value (pts ! j))"
proof -
  from sure_total_world[OF sure_generate_time_series[OF shift_closed_True clock_inv_clock_ok, of 10 100] assms]
  obtain pts w' where r: "generate_time_series 10 100 w = (Inr pts, w')" "length pts = 10"
    and d: "\<forall>j. Suc j < 10 \<longrightarrow> ts_date (pts ! Suc j) = ts_date (pts ! j) + usec_per_day"
    and v: "\<forall>j<10. 0 \<le> ts_value (pts ! j)"
    by auto
  have "sorted_wrt (<) (map ts_date pts)"
    using d r(2) by (simp add: sorted_wrt_iff_nth_Suc_transp usec_per_day_def)
  with r d v show ?thesis by blast
qed

theorem time_series_ten_points_witness:
  "clock_ok (clock example_world)
   \<and> (\<exists>pts w'. generate_time_series 10 100 example_world = (Inr pts, w') \<and> length pts = 10
         \<and> sorted_wrt (<) (map ts_date pts) \<and> 0 \<le> ts_value (pts ! 9))"
  using time_series_ten_points[of example_world] by auto



text \<open>
  Claim C2, as the code has it. A transaction's date is the start of the window, 90 days before
  the clock reading, plus a whole number of days from 0 to 90 and of hours from 0 to 23. When
  the draws are 90 days and 23 hours the date is 23 hours after the clock reading, outside
  the 90-day window that ends at generation time.
\<close>

theorem transaction_date_after_generation_time:
  "\<exists>tx w'. generate_transactions 1 late_world = (Inr [tx], w')
     \<and> t_date tx = clock late_world 0 + 23 * 3600000000
     \<and> clock late_world 0 < t_date tx"
  by (simp add: generate_transactions_def late_world_def eval_defs)







end
